theory Spec2Isabelle
  imports Main "HOL-Library.Word"
begin

unbundle bit_operations_syntax

section \<open>Data\<close>

text \<open>
  A JavaScript string is a sequence of 16-bit code units; a \<open>Uint8Array\<close> is a sequence
  of bytes. String literals of the source are ASCII and are written with \<open>ascii\<close>.
\<close>

type_synonym byte = "8 word"
type_synonym bytes = "8 word list"
type_synonym code_unit = "16 word"
type_synonym js_string = "16 word list"

definition ascii :: "string \<Rightarrow> js_string" where
  "ascii s = map (\<lambda>c. of_nat (of_char c)) s"

section \<open>The byte codec: \<open>encode\<close> and \<open>decode\<close>\<close>

text \<open>
  \<open>encode\<close> is \<open>textEncoder.encode(s)\<close> and \<open>decode\<close> is \<open>textDecoder.decode(b)\<close>,
  for \<open>new TextEncoder()\<close> and \<open>new TextDecoder()\<close>. The two classes are the
  platform's. Built without arguments, the decoder is the UTF-8 decoder with \<open>fatal\<close>
  and \<open>ignoreBOM\<close> false. What the two calls compute is fixed by the Encoding Standard
  and, for the string argument, by Web IDL; the definitions of this section follow those
  algorithms step by step. Code points are natural numbers.
\<close>

subsection \<open>Strings to scalar values\<close>

text \<open>
  \<open>TextEncoder.encode\<close> takes a \<open>USVString\<close>: the code units are read as code points,
  a surrogate pair gives one code point, and a surrogate without its partner is replaced by
  U+FFFD. \<open>isWellFormed\<close> is \<open>String.prototype.isWellFormed\<close>: no lone surrogate.
\<close>

definition is_lead :: "code_unit \<Rightarrow> bool" where
  "is_lead c = (0xD800 \<le> unat c \<and> unat c \<le> 0xDBFF)"

definition is_trail :: "code_unit \<Rightarrow> bool" where
  "is_trail c = (0xDC00 \<le> unat c \<and> unat c \<le> 0xDFFF)"

fun isWellFormed :: "js_string \<Rightarrow> bool" where
  "isWellFormed [] = True"
| "isWellFormed [c] = (\<not> is_lead c \<and> \<not> is_trail c)"
| "isWellFormed (c # d # s) =
     (if is_lead c then is_trail d \<and> isWellFormed s
      else \<not> is_trail c \<and> isWellFormed (d # s))"

definition pair_value :: "code_unit \<Rightarrow> code_unit \<Rightarrow> nat" where
  "pair_value c d = 2 ^ 16 + 2 ^ 10 * (unat c AND 0x3FF) + (unat d AND 0x3FF)"

fun to_scalar_values :: "js_string \<Rightarrow> nat list" where
  "to_scalar_values [] = []"
| "to_scalar_values [c] = (if is_lead c \<or> is_trail c then [0xFFFD] else [unat c])"
| "to_scalar_values (c # d # s) =
     (if is_trail c then 0xFFFD # to_scalar_values (d # s)
      else if is_lead c then
        (if is_trail d then pair_value c d # to_scalar_values s
         else 0xFFFD # to_scalar_values (d # s))
      else unat c # to_scalar_values (d # s))"

definition is_scalar_value :: "nat \<Rightarrow> bool" where
  "is_scalar_value cp = (cp \<le> 0x10FFFF \<and> \<not> (0xD800 \<le> cp \<and> cp \<le> 0xDFFF))"

subsection \<open>The UTF-8 encoder\<close>

text \<open>
  One code point gives one to four bytes: a lead byte \<open>(cp >> (6 * count)) + offset\<close>,
  then \<open>count\<close> continuation bytes \<open>0x80 | ((cp >> (6 * (count - 1))) & 0x3F)\<close>,
  \<open>count\<close> counting down.
\<close>

definition byte_of :: "nat \<Rightarrow> byte" where
  "byte_of n = of_nat n"

fun utf8_trail :: "nat \<Rightarrow> nat \<Rightarrow> bytes" where
  "utf8_trail cp 0 = []"
| "utf8_trail cp (Suc n) = byte_of (0x80 OR (drop_bit (6 * n) cp AND 0x3F)) # utf8_trail cp n"

definition utf8_encode_cp :: "nat \<Rightarrow> bytes" where
  "utf8_encode_cp cp =
     (if cp \<le> 0x7F then [byte_of cp]
      else let (count, offset) =
             (if cp \<le> 0x7FF then (1, 0xC0)
              else if cp \<le> 0xFFFF then (2, 0xE0)
              else (3, 0xF0))
           in byte_of (drop_bit (6 * count) cp + offset) # utf8_trail cp count)"

definition encode :: "js_string \<Rightarrow> bytes" where
  "encode s = concat (map utf8_encode_cp (to_scalar_values s))"

subsection \<open>The UTF-8 decoder\<close>

text \<open>
  The decoder is a state machine over the bytes. A byte that cannot continue the sequence
  in progress yields U+FFFD, resets the state and is read again from the initial state;
  a sequence cut off by the end of the input yields U+FFFD. Nothing fails.
\<close>

record utf8_decoder =
  code_point :: nat
  bytes_seen :: nat
  bytes_needed :: nat
  lower_boundary :: nat
  upper_boundary :: nat

definition utf8_init :: utf8_decoder where
  "utf8_init = \<lparr>code_point = 0, bytes_seen = 0, bytes_needed = 0,
                lower_boundary = 0x80, upper_boundary = 0xBF\<rparr>"

function utf8_decode :: "utf8_decoder \<Rightarrow> bytes \<Rightarrow> nat list" where
  "utf8_decode st [] = (if bytes_needed st \<noteq> 0 then [0xFFFD] else [])"
| "utf8_decode st (b # bs) =
     (let byte = unat b in
      if bytes_needed st = 0 then
        (if byte \<le> 0x7F then byte # utf8_decode st bs
         else if 0xC2 \<le> byte \<and> byte \<le> 0xDF then
           utf8_decode (st\<lparr>bytes_needed := 1, code_point := byte AND 0x1F\<rparr>) bs
         else if 0xE0 \<le> byte \<and> byte \<le> 0xEF then
           utf8_decode (st\<lparr>lower_boundary := (if byte = 0xE0 then 0xA0 else lower_boundary st),
                            upper_boundary := (if byte = 0xED then 0x9F else upper_boundary st),
                            bytes_needed := 2, code_point := byte AND 0xF\<rparr>) bs
         else if 0xF0 \<le> byte \<and> byte \<le> 0xF4 then
           utf8_decode (st\<lparr>lower_boundary := (if byte = 0xF0 then 0x90 else lower_boundary st),
                            upper_boundary := (if byte = 0xF4 then 0x8F else upper_boundary st),
                            bytes_needed := 3, code_point := byte AND 0x7\<rparr>) bs
         else 0xFFFD # utf8_decode st bs)
      else if byte < lower_boundary st \<or> upper_boundary st < byte then
        0xFFFD # utf8_decode utf8_init (b # bs)
      else
        (let cp = push_bit 6 (code_point st) OR (byte AND 0x3F);
             seen = bytes_seen st + 1
         in if seen \<noteq> bytes_needed st then
              utf8_decode (st\<lparr>lower_boundary := 0x80, upper_boundary := 0xBF,
                               code_point := cp, bytes_seen := seen\<rparr>) bs
            else cp # utf8_decode utf8_init bs))"
  by pat_completeness auto
termination
  by (relation "measure (\<lambda>(st, bs). 2 * length bs + (if bytes_needed st = 0 then 0 else 1))")
     (auto simp: utf8_init_def)

declare utf8_decode.simps [simp del]

text \<open>
  With \<open>ignoreBOM\<close> false the first decoded code point is dropped when it is U+FEFF.
  The remaining code points become code units, those above U+FFFF as a surrogate pair.
\<close>

fun drop_bom :: "nat list \<Rightarrow> nat list" where
  "drop_bom [] = []"
| "drop_bom (cp # cps) = (if cp = 0xFEFF then cps else cp # cps)"

definition code_units_of :: "nat \<Rightarrow> js_string" where
  "code_units_of cp =
     (if cp \<le> 0xFFFF then [of_nat cp]
      else [of_nat (drop_bit 10 (cp - 0x10000) + 0xD800),
            of_nat (((cp - 0x10000) AND 0x3FF) + 0xDC00)])"

definition decode :: "bytes \<Rightarrow> js_string" where
  "decode b = concat (map code_units_of (drop_bom (utf8_decode utf8_init b)))"

text \<open>
  Two notions for stating what the codec does to a string: whether it begins with
  U+FEFF, and the string without such a first code unit.
\<close>

definition starts_with_bom :: "js_string \<Rightarrow> bool" where
  "starts_with_bom s = (case s of [] \<Rightarrow> False | c # _ \<Rightarrow> c = 0xFEFF)"

definition strip_bom :: "js_string \<Rightarrow> js_string" where
  "strip_bom s = (case s of [] \<Rightarrow> [] | c # t \<Rightarrow> if c = 0xFEFF then t else s)"

section \<open>The converter: \<open>SuperJsonPayloadConverter\<close>\<close>

text \<open>
  A payload has an optional metadata mapping from string keys to bytes and an optional
  body. Absent (\<open>undefined\<close> or \<open>null\<close>) is \<open>None\<close>.
\<close>

record payload =
  metadata :: "(js_string \<rightharpoonup> bytes) option"
  data :: "bytes option"

text \<open>
  The converter calls \<open>JSON.stringify\<close>, \<open>JSON.parse\<close>, \<open>superjson.serialize\<close> and
  \<open>superjson.deserialize\<close>, and reads the constant \<open>METADATA_ENCODING_KEY\<close> of
  \<open>@temporalio/common\<close>. None of them is part of the repository; they are the fields of
  a record the converter takes as a parameter. \<open>'v\<close> is the type of JavaScript values other
  than \<open>undefined\<close>, up to deep equality; a value that may be \<open>undefined\<close> is a
  \<open>'v option\<close>. \<open>'x\<close> is the type of the exceptions these calls can throw; \<open>Inl\<close> is
  a throw. \<open>JSON.stringify\<close> returns a string, or \<open>undefined\<close> (\<open>None\<close>) for a
  value it has no text for, such as a function or a symbol. \<open>serialize\<close> returns the
  pair of \<open>json\<close> and the optional \<open>meta\<close>.
\<close>

record ('v, 'x) deps =
  METADATA_ENCODING_KEY :: js_string
  json_stringify :: "'v \<Rightarrow> 'x + js_string option"
  json_parse :: "js_string \<Rightarrow> 'x + 'v"
  serialize :: "'v \<Rightarrow> 'x + ('v \<times> 'v option)"
  deserialize :: "'v \<times> 'v option \<Rightarrow> 'x + 'v"

text \<open>
  An error of the converter is either the \<open>ValueError\<close> it throws itself, with its message,
  or an exception of one of the calls above, passed on as it is.
\<close>

datatype 'x error = ValueError js_string | Raised 'x

definition SUPERJSON_META_KEY :: js_string where
  "SUPERJSON_META_KEY = ascii ''superjson-meta''"

definition ENCODING :: js_string where
  "ENCODING = ascii ''json/plain''"

text \<open>
  \<open>encode\<close> applied to the result of \<open>JSON.stringify\<close>. The method is
  \<open>TextEncoder.encode(input = "")\<close>: an argument that is \<open>undefined\<close> takes the default,
  the empty string, and the bytes are none.
\<close>

definition encode_arg :: "js_string option \<Rightarrow> bytes" where
  "encode_arg text = encode (case text of None \<Rightarrow> [] | Some s \<Rightarrow> s)"

definition add_meta ::
  "('v, 'x) deps \<Rightarrow> (js_string \<rightharpoonup> bytes) \<Rightarrow> 'v option \<Rightarrow> 'x + (js_string \<rightharpoonup> bytes)" where
  \<comment> \<open>\<open>if (meta !== undefined) metadata[SUPERJSON_META_KEY] = encode(JSON.stringify(meta))\<close>\<close>
  "add_meta D md meta =
     (case meta of
        None \<Rightarrow> Inr md
      | Some m \<Rightarrow>
          (case json_stringify D m of
             Inl x \<Rightarrow> Inl x
           | Inr text \<Rightarrow> Inr (md(SUPERJSON_META_KEY \<mapsto> encode_arg text))))"

definition toPayload :: "('v, 'x) deps \<Rightarrow> 'v option \<Rightarrow> 'x + payload option" where
  "toPayload D value =
     (case value of
        None \<Rightarrow> Inr None
      | Some v \<Rightarrow>
          (case serialize D v of
             Inl x \<Rightarrow> Inl x
           | Inr (json, meta) \<Rightarrow>
               (case add_meta D [METADATA_ENCODING_KEY D \<mapsto> encode ENCODING] meta of
                  Inl x \<Rightarrow> Inl x
                | Inr md \<Rightarrow>
                    (case json_stringify D json of
                       Inl x \<Rightarrow> Inl x
                     | Inr text \<Rightarrow>
                         Inr (Some \<lparr>metadata = Some md, data = Some (encode_arg text)\<rparr>)))))"

definition meta_raw :: "payload \<Rightarrow> bytes option" where
  \<comment> \<open>\<open>payload.metadata?.[SUPERJSON_META_KEY]\<close>\<close>
  "meta_raw p = (case metadata p of None \<Rightarrow> None | Some md \<Rightarrow> md SUPERJSON_META_KEY)"

definition fromPayload :: "('v, 'x) deps \<Rightarrow> payload \<Rightarrow> 'x error + 'v" where
  "fromPayload D p =
     (case data p of
        None \<Rightarrow> Inl (ValueError (ascii ''Payload data is missing''))
      | Some d \<Rightarrow>
          (case json_parse D (decode d) of
             Inl x \<Rightarrow> Inl (Raised x)
           | Inr json \<Rightarrow>
               (case meta_raw p of
                  None \<Rightarrow> Inr json
                | Some metaRaw \<Rightarrow>
                    (case json_parse D (decode metaRaw) of
                       Inl x \<Rightarrow> Inl (Raised x)
                     | Inr meta \<Rightarrow>
                         (case deserialize D (json, Some meta) of
                            Inl x \<Rightarrow> Inl (Raised x)
                          | Inr v \<Rightarrow> Inr v)))))"

section \<open>The composite converter: \<open>payloadConverter\<close>\<close>

text \<open>
  \<open>payloadConverter\<close> is built by \<open>new CompositePayloadConverter(...)\<close> from three
  converter objects, in this order.
\<close>

datatype converter = UndefinedPayloadConverter | BinaryPayloadConverter | SuperJsonPayloadConverter

definition payloadConverter :: "converter list" where
  "payloadConverter =
     [UndefinedPayloadConverter, BinaryPayloadConverter, SuperJsonPayloadConverter]"

text \<open>
  Modelled from the spec: the class \<open>CompositePayloadConverter\<close> belongs to
  \<open>@temporalio/common\<close> and is not in the sources. Section 4.3 of the specification
  gives the encode step of the dispatcher: the converters are tried in their declared order
  and the first defined payload is the result. \<open>first_accepting\<close> is that loop; next to
  the result it returns the converters whose \<open>toPayload\<close> it called. A result
  \<open>Inr None\<close> means that no converter accepted the value.
\<close>

fun first_accepting ::
  "('c \<Rightarrow> 'x + payload option) \<Rightarrow> 'c list \<Rightarrow> 'c list \<times> ('x + payload option)" where
  "first_accepting run [] = ([], Inr None)"
| "first_accepting run (c # cs) =
     (case run c of
        Inl x \<Rightarrow> ([c], Inl x)
      | Inr (Some p) \<Rightarrow> ([c], Inr (Some p))
      | Inr None \<Rightarrow> (let (tried, r) = first_accepting run cs in (c # tried, r)))"

text \<open>
  Modelled from the spec: the classes \<open>UndefinedPayloadConverter\<close> and
  \<open>BinaryPayloadConverter\<close> are not in the sources either. The specification says only
  that they own \<open>undefined\<close> and raw binary buffers, so their encode steps are the
  parameters \<open>undefined_toPayload\<close> and \<open>binary_toPayload\<close>. The third converter is the
  one of this repository.
\<close>

definition converter_toPayload ::
  "('v, 'x) deps \<Rightarrow> ('v option \<Rightarrow> payload option) \<Rightarrow> ('v option \<Rightarrow> payload option) \<Rightarrow>
     converter \<Rightarrow> 'v option \<Rightarrow> 'x + payload option" where
  "converter_toPayload D undefined_toPayload binary_toPayload c value =
     (case c of
        UndefinedPayloadConverter \<Rightarrow> Inr (undefined_toPayload value)
      | BinaryPayloadConverter \<Rightarrow> Inr (binary_toPayload value)
      | SuperJsonPayloadConverter \<Rightarrow> toPayload D value)"

text \<open>
  Modelled from the spec: \<open>payloadConverter.toPayload\<close>, the dispatcher of section 4.3
  run on the three converters above.
\<close>

definition payloadConverter_toPayload ::
  "('v, 'x) deps \<Rightarrow> ('v option \<Rightarrow> payload option) \<Rightarrow> ('v option \<Rightarrow> payload option) \<Rightarrow>
     'v option \<Rightarrow> converter list \<times> ('x + payload option)" where
  "payloadConverter_toPayload D undefined_toPayload binary_toPayload value =
     first_accepting (\<lambda>c. converter_toPayload D undefined_toPayload binary_toPayload c value)
       payloadConverter"

section \<open>A sample environment\<close>

text \<open>
  The theorems below hold for every environment \<open>D\<close>. To apply them to concrete inputs,
  this section fixes one small environment: a type of values, and the four calls given as
  finite tables over the documents of the repository's tests (a map whose value is a set
  holding a date, the legacy object, an array and the bare primitives) and over one
  function value. \<open>serialize\<close> hands the function on as its \<open>json\<close> with no manifest,
  and \<open>JSON.stringify\<close> of a function is \<open>undefined\<close>. Texts outside the tables, the
  empty text among them, do not parse.
\<close>

datatype js_value =
    JNull | JBool bool | JNumber int | JString string
  | JArray "js_value list" | JObject "(string \<times> js_value) list"
  | JDate string | JSet "js_value list" | JMap "(js_value \<times> js_value) list"
  | JBytes bytes | JBigInt int | JFunction


datatype js_exception = SyntaxError | TypeError

definition nested_value :: js_value where
  "nested_value = JMap [(JString ''k'', JSet [JDate ''2024-01-01T00:00:00.000Z''])]"

definition nested_json :: js_value where
  "nested_json = JArray [JArray [JString ''k'', JArray [JString ''2024-01-01T00:00:00.000Z'']]]"

definition nested_json_text :: js_string where
  \<open>nested_json_text = ascii ''[["k",["2024-01-01T00:00:00.000Z"]]]''\<close>

definition nested_meta :: js_value where
  "nested_meta =
     JObject [(''values'', JArray [JString ''map'',
                 JObject [(''0.1'', JArray [JString ''set'',
                   JObject [(''0'', JArray [JString ''Date''])]])]]),
              (''v'', JNumber 1)]"

definition nested_meta_text :: js_string where
  \<open>nested_meta_text = ascii ''{"values":["map",{"0.1":["set",{"0":["Date"]}]}],"v":1}''\<close>

definition legacy_json :: js_value where
  "legacy_json = JObject [(''name'', JString ''legacy''), (''value'', JNumber 123)]"

definition legacy_text :: js_string where
  \<open>legacy_text = ascii ''{"name":"legacy","value":123}''\<close>

definition array_json :: js_value where
  "array_json = JArray [JNumber 1, JNumber 2, JNumber 3, JString ''four'', JString ''five'']"

definition array_text :: js_string where
  \<open>array_text = ascii ''[1,2,3,"four","five"]''\<close>

definition sample_stringify :: "js_value \<Rightarrow> js_exception + js_string option" where
  \<open>sample_stringify v =
     (if v = nested_json then Inr (Some nested_json_text)
      else if v = nested_meta then Inr (Some nested_meta_text)
      else if v = legacy_json then Inr (Some legacy_text)
      else if v = array_json then Inr (Some array_text)
      else if v = JString ''hello'' then Inr (Some (ascii ''"hello"''))
      else if v = JNumber 42 then Inr (Some (ascii ''42''))
      else if v = JBool True then Inr (Some (ascii ''true''))
      else if v = JNull then Inr (Some (ascii ''null''))
      else if v = JFunction then Inr None
      else Inl TypeError)\<close>

definition sample_parse :: "js_string \<Rightarrow> js_exception + js_value" where
  \<open>sample_parse t =
     (if t = nested_json_text then Inr nested_json
      else if t = nested_meta_text then Inr nested_meta
      else if t = legacy_text then Inr legacy_json
      else if t = array_text then Inr array_json
      else if t = ascii ''"hello"'' then Inr (JString ''hello'')
      else if t = ascii ''42'' then Inr (JNumber 42)
      else if t = ascii ''true'' then Inr (JBool True)
      else if t = ascii ''null'' then Inr JNull
      else Inl SyntaxError)\<close>

definition sample_serialize :: "js_value \<Rightarrow> js_exception + (js_value \<times> js_value option)" where
  "sample_serialize v =
     (if v = nested_value then Inr (nested_json, Some nested_meta) else Inr (v, None))"

definition sample_deserialize :: "js_value \<times> js_value option \<Rightarrow> js_exception + js_value" where
  "sample_deserialize jm =
     (case snd jm of
        None \<Rightarrow> Inr (fst jm)
      | Some m \<Rightarrow>
          if fst jm = nested_json \<and> m = nested_meta then Inr nested_value else Inl TypeError)"

definition sample_deps :: "(js_value, js_exception) deps" where
  "sample_deps =
     \<lparr>METADATA_ENCODING_KEY = ascii ''encoding'',
      json_stringify = sample_stringify, json_parse = sample_parse,
      serialize = sample_serialize, deserialize = sample_deserialize\<rparr>"

definition sample_undefined_toPayload :: "js_value option \<Rightarrow> payload option" where
  "sample_undefined_toPayload value =
     (case value of
        None \<Rightarrow> Some \<lparr>metadata = Some [ascii ''encoding'' \<mapsto> encode (ascii ''binary/null'')],
                      data = None\<rparr>
      | Some v \<Rightarrow> None)"

definition sample_binary_toPayload :: "js_value option \<Rightarrow> payload option" where
  "sample_binary_toPayload value =
     (case value of
        Some (JBytes b) \<Rightarrow>
          Some \<lparr>metadata = Some [ascii ''encoding'' \<mapsto> encode (ascii ''binary/plain'')],
                data = Some b\<rparr>
      | _ \<Rightarrow> None)"

definition plain_payload :: "js_string \<Rightarrow> payload" where
  \<comment> \<open>a hand-built payload: the encoding entry and a body, no manifest\<close>
  "plain_payload text =
     \<lparr>metadata = Some [ascii ''encoding'' \<mapsto> encode (ascii ''json/plain'')],
      data = Some (encode text)\<rparr>"


section \<open>Lemmas on the codec\<close>

subsection \<open>Bit operations as arithmetic\<close>

text \<open>
  On natural numbers a mask is a remainder, a right shift a division, and an \<open>OR\<close> of
  two numbers with no common bit their sum.
\<close>

lemma and_63: "(x::nat) AND 0x3F = x mod 64"
proof -
  have "x AND mask 6 = take_bit 6 x" by (simp only: take_bit_eq_mask)
  then show ?thesis by (simp add: take_bit_eq_mod mask_eq_exp_minus_1)
qed

lemma and_low: "(x::nat) AND 0x1F = x mod 32" "(x::nat) AND 0xF = x mod 16" "(x::nat) AND 0x7 = x mod 8"
  "(x::nat) AND 0x3FF = x mod 1024"
  using take_bit_eq_mask[of 5 x] take_bit_eq_mask[of 4 x] take_bit_eq_mask[of 3 x] take_bit_eq_mask[of 10 x]
  by (simp_all add: take_bit_eq_mod mask_eq_exp_minus_1)

lemma push_or_add: 
  fixes a b :: nat
  assumes "b < 2 ^ n" shows "push_bit n a OR b = a * 2 ^ n + b"
proof -
  have tb: "take_bit n b = b" using assms by (simp add: take_bit_eq_mod)
  have "push_bit n a AND take_bit n b = 0"
    by (rule bit_eqI) (auto simp: bit_simps)
  then have "push_bit n a + take_bit n b = push_bit n a OR take_bit n b"
    by (rule disjunctive_add_eq_or)
  then show ?thesis by (simp add: tb push_bit_eq_mult)
qed

lemma or_80: "y < 64 \<Longrightarrow> (0x80::nat) OR y = 0x80 + y"
  using push_or_add[of y 7 1] by simp

lemma push6: "b < 64 \<Longrightarrow> push_bit 6 (a::nat) OR b = a * 64 + b"
  using push_or_add[of b 6 a] by simp

subsection \<open>Arithmetic of the byte ranges\<close>

text \<open>
  The facts on quotients and remainders that place each byte of an encoded code point in
  the range the decoder expects, and that put the code point together again.
\<close>

lemma lead_mod1: "q < 32 \<Longrightarrow> (q + 192) mod 32 = (q::nat)"
  using mod_mult_self1[of q 6 32] by simp

lemma lead_mod2: "q < 16 \<Longrightarrow> (q + 224) mod 16 = (q::nat)"
  using mod_mult_self1[of q 14 16] by simp

lemma lead_mod3: "q < 8 \<Longrightarrow> (q + 240) mod 8 = (q::nat)"
  using mod_mult_self1[of q 30 8] by simp

lemma cont_mod: "(128 + r mod 64) mod 64 = (r::nat) mod 64"
  using mod_mult_self3[of 2 64 "r mod 64"] by simp

lemma div_4096: "(cp::nat) div 4096 = cp div 64 div 64"
  by (simp add: div_mult2_eq[symmetric])

lemma div_262144: "(cp::nat) div 262144 = cp div 64 div 64 div 64"
  by (simp add: div_mult2_eq[symmetric])

lemma join2: "(cp::nat) div 64 * 64 + cp mod 64 = cp"
  by simp

lemma join3: "((cp::nat) div 4096 * 64 + cp div 64 mod 64) * 64 + cp mod 64 = cp"
  by (simp only: div_4096 div_mult_mod_eq)

lemma join4: "(((cp::nat) div 262144 * 64 + cp div 4096 mod 64) * 64 + cp div 64 mod 64) * 64 + cp mod 64 = cp"
  by (simp only: div_4096 div_262144 div_mult_mod_eq)

lemma lo2: "0x7F < (cp::nat) \<Longrightarrow> 2 \<le> cp div 64"
  by (simp add: less_eq_div_iff_mult_less_eq)

lemma lo3: "0x7FF < (cp::nat) \<Longrightarrow> cp div 4096 = 0 \<Longrightarrow> 32 \<le> cp div 64 mod 64"
proof -
  assume a: "0x7FF < cp" "cp div 4096 = 0"
  then have "cp < 4096" by simp
  then have "cp div 64 < 64" by simp
  then have "cp div 64 mod 64 = cp div 64" by simp
  moreover have "32 \<le> cp div 64" using a(1) by (simp add: less_eq_div_iff_mult_less_eq)
  ultimately show ?thesis by simp
qed

lemma split64: "(x::nat) = x div 64 * 64 + x mod 64"
  by simp

lemma hi3: "(cp::nat) < 0xD800 \<Longrightarrow> cp div 4096 = 13 \<Longrightarrow> cp div 64 mod 64 \<le> 31"
proof -
  assume a: "cp < 0xD800" "cp div 4096 = 13"
  have "cp div 64 div 64 = 13" using a(2) by (simp add: div_mult2_eq[symmetric])
  then have "cp div 64 = 13 * 64 + cp div 64 mod 64"
    using split64[of "cp div 64"] by simp
  moreover have "cp div 64 < 864" using a(1) by simp
  ultimately show ?thesis by linarith
qed

lemma lo4: "0xFFFF < (cp::nat) \<Longrightarrow> cp div 262144 = 0 \<Longrightarrow> 16 \<le> cp div 4096 mod 64"
proof -
  assume a: "0xFFFF < cp" "cp div 262144 = 0"
  then have "cp < 262144" by simp
  then have "cp div 4096 < 64" by simp
  then have "cp div 4096 mod 64 = cp div 4096" by simp
  moreover have "16 \<le> cp div 4096" using a(1) by (simp add: less_eq_div_iff_mult_less_eq)
  ultimately show ?thesis by simp
qed

lemma hi4: "(cp::nat) \<le> 0x10FFFF \<Longrightarrow> cp div 262144 = 4 \<Longrightarrow> cp div 4096 mod 64 \<le> 15"
proof -
  assume a: "cp \<le> 0x10FFFF" "cp div 262144 = 4"
  have "cp div 4096 div 64 = 4" using a(2) by (simp add: div_mult2_eq[symmetric])
  then have "cp div 4096 = 4 * 64 + cp div 4096 mod 64"
    using split64[of "cp div 4096"] by simp
  moreover have "cp div 4096 < 272" using a(1) by simp
  ultimately show ?thesis by linarith
qed

lemma top4: "(cp::nat) \<le> 0x10FFFF \<Longrightarrow> cp div 262144 \<le> 4"
proof -
  assume "cp \<le> 0x10FFFF"
  then have "cp div 262144 < 5" by simp
  then show ?thesis by simp
qed

lemma second_lo3: "(d = 0 \<Longrightarrow> 32 \<le> m) \<Longrightarrow> (if d + 0xE0 = (0xE0::nat) then 0xA0 else 0x80) \<le> 0x80 + (m::nat)"
  by (cases "d = 0") simp_all

lemma second_hi3: "(d = 13 \<Longrightarrow> m \<le> 31) \<Longrightarrow> m \<le> 63 \<Longrightarrow> 0x80 + (m::nat) \<le> (if d + 0xE0 = (0xED::nat) then 0x9F else 0xBF)"
  by (cases "d = 13") simp_all

lemma second_lo4: "(d = 0 \<Longrightarrow> 16 \<le> m) \<Longrightarrow> (if d + 0xF0 = (0xF0::nat) then 0x90 else 0x80) \<le> 0x80 + (m::nat)"
  by (cases "d = 0") simp_all

lemma second_hi4: "(d = 4 \<Longrightarrow> m \<le> 15) \<Longrightarrow> m \<le> 63 \<Longrightarrow> 0x80 + (m::nat) \<le> (if d + 0xF0 = (0xF4::nat) then 0x8F else 0xBF)"
  by (cases "d = 4") simp_all

lemma cont_range: "m \<le> 63 \<Longrightarrow> 0x80 \<le> 0x80 + (m::nat) \<and> 0x80 + m \<le> 0xBF"
  by simp

lemma mod63: "(x::nat) mod 64 \<le> 63"
  using mod_less_divisor[of 64 x] by linarith

lemma below_E000: "(cp::nat) div 4096 = 13 \<Longrightarrow> cp < 0xE000"
proof -
  assume "cp div 4096 = 13"
  then have "cp div 4096 < 14" by linarith
  then show ?thesis by simp
qed

lemma lead_low10:
  assumes "0xD800 \<le> (x::nat)" "x \<le> 0xDBFF"
  shows "x mod 1024 + 0xD800 = x" "x mod 1024 < 1024"
proof -
  obtain y where y: "x = 0xD800 + y" using assms(1) le_iff_add by blast
  then have "y < 1024" using assms(2) by simp
  then have "(0xD800 + y) mod 1024 = y" using mod_mult_self3[of 54 1024 y] by simp
  then show "x mod 1024 + 0xD800 = x" using y by simp
  show "x mod 1024 < 1024" by simp
qed

lemma trail_low10:
  assumes "0xDC00 \<le> (x::nat)" "x \<le> 0xDFFF"
  shows "x mod 1024 + 0xDC00 = x"
proof -
  obtain y where y: "x = 0xDC00 + y" using assms(1) le_iff_add by blast
  then have "y < 1024" using assms(2) by simp
  then have "(0xDC00 + y) mod 1024 = y" using mod_mult_self3[of 55 1024 y] by simp
  then show "x mod 1024 + 0xDC00 = x" using y by simp
qed

lemma pair_split:
  assumes "b < (1024::nat)"
  shows "(1024 * a + b) div 1024 = a" "(1024 * a + b) mod 1024 = b"
  using assms by simp_all

lemma pair_bound:
  assumes "a < (1024::nat)" "b < 1024"
  shows "65536 + 1024 * a + b \<le> 0x10FFFF"
proof -
  have "a \<le> 1023" "b \<le> 1023" using assms by simp_all
  then have "1024 * a \<le> 1024 * 1023" by simp
  then show ?thesis using \<open>b \<le> 1023\<close> by simp
qed

subsection \<open>Encoder and decoder on one code point\<close>

text \<open>
  The encoder's output in closed form for each of the four lengths, the decoder's run over
  a valid sequence of each length, and the two together: from the initial state the
  decoder reads the bytes of a scalar value back as that value.
\<close>

lemma unat_byte: "x < 256 \<Longrightarrow> unat (byte_of x) = x"
  by (simp add: byte_of_def unat_of_nat)

lemma utf8_trail_2: "utf8_trail cp 2 = [byte_of (0x80 + cp div 64 mod 64), byte_of (0x80 + cp mod 64)]"
proof -
  have "utf8_trail cp (Suc (Suc 0)) = [byte_of (0x80 + cp div 64 mod 64), byte_of (0x80 + cp mod 64)]"
    by (simp add: and_63 or_80 drop_bit_eq_div)
  then show ?thesis by (simp only: numeral_2_eq_2)
qed

lemma utf8_trail_3: "utf8_trail cp 3 =
   [byte_of (0x80 + cp div 4096 mod 64), byte_of (0x80 + cp div 64 mod 64), byte_of (0x80 + cp mod 64)]"
proof -
  have "utf8_trail cp (Suc (Suc (Suc 0))) =
   [byte_of (0x80 + cp div 4096 mod 64), byte_of (0x80 + cp div 64 mod 64), byte_of (0x80 + cp mod 64)]"
    by (simp add: and_63 or_80 drop_bit_eq_div)
  then show ?thesis by (simp only: numeral_3_eq_3)
qed

lemma enc1: "cp \<le> 0x7F \<Longrightarrow> utf8_encode_cp cp = [byte_of cp]"
  by (simp add: utf8_encode_cp_def)

lemma enc2: "0x7F < cp \<Longrightarrow> cp \<le> 0x7FF \<Longrightarrow>
  utf8_encode_cp cp = [byte_of (cp div 64 + 0xC0), byte_of (0x80 + cp mod 64)]"
  by (simp add: utf8_encode_cp_def and_63 or_80 drop_bit_eq_div)

lemma enc3: "0x7FF < cp \<Longrightarrow> cp \<le> 0xFFFF \<Longrightarrow>
  utf8_encode_cp cp = [byte_of (cp div 4096 + 0xE0), byte_of (0x80 + cp div 64 mod 64), byte_of (0x80 + cp mod 64)]"
  by (simp add: utf8_encode_cp_def utf8_trail_2 drop_bit_eq_div)

lemma enc4: "0xFFFF < cp \<Longrightarrow>
  utf8_encode_cp cp = [byte_of (cp div 262144 + 0xF0), byte_of (0x80 + cp div 4096 mod 64),
     byte_of (0x80 + cp div 64 mod 64), byte_of (0x80 + cp mod 64)]"
  by (simp add: utf8_encode_cp_def utf8_trail_3 drop_bit_eq_div)

lemma dec1: "unat b \<le> 0x7F \<Longrightarrow> utf8_decode utf8_init (b # bs) = unat b # utf8_decode utf8_init bs"
  by (simp add: utf8_decode.simps utf8_init_def)

lemma dec2:
  assumes "0xC2 \<le> unat b1" "unat b1 \<le> 0xDF" "0x80 \<le> unat b2" "unat b2 \<le> 0xBF"
  shows "utf8_decode utf8_init (b1 # b2 # bs) =
     (unat b1 mod 32 * 64 + unat b2 mod 64) # utf8_decode utf8_init bs"
  using assms by (simp add: utf8_decode.simps utf8_init_def Let_def and_63 and_low push6)

lemma dec3:
  assumes "0xE0 \<le> unat b1" "unat b1 \<le> 0xEF"
    "(if unat b1 = 0xE0 then 0xA0 else 0x80) \<le> unat b2"
    "unat b2 \<le> (if unat b1 = 0xED then 0x9F else 0xBF)"
    "0x80 \<le> unat b3" "unat b3 \<le> 0xBF"
  shows "utf8_decode utf8_init (b1 # b2 # b3 # bs) =
     ((unat b1 mod 16 * 64 + unat b2 mod 64) * 64 + unat b3 mod 64) # utf8_decode utf8_init bs"
  using assms by (simp add: utf8_decode.simps utf8_init_def Let_def and_63 and_low push6 split: if_splits)

lemma dec4:
  assumes "0xF0 \<le> unat b1" "unat b1 \<le> 0xF4"
    "(if unat b1 = 0xF0 then 0x90 else 0x80) \<le> unat b2"
    "unat b2 \<le> (if unat b1 = 0xF4 then 0x8F else 0xBF)"
    "0x80 \<le> unat b3" "unat b3 \<le> 0xBF" "0x80 \<le> unat b4" "unat b4 \<le> 0xBF"
  shows "utf8_decode utf8_init (b1 # b2 # b3 # b4 # bs) =
     (((unat b1 mod 8 * 64 + unat b2 mod 64) * 64 + unat b3 mod 64) * 64 + unat b4 mod 64)
       # utf8_decode utf8_init bs"
  using assms by (simp add: utf8_decode.simps utf8_init_def Let_def and_63 and_low push6 split: if_splits)

lemma dec_enc1:
  assumes "cp \<le> 0x7F"
  shows "utf8_decode utf8_init (utf8_encode_cp cp @ bs) = cp # utf8_decode utf8_init bs"
proof -
  have u: "unat (byte_of cp) = cp" using assms by (simp add: unat_byte)
  show ?thesis using assms dec1[of "byte_of cp" bs] by (simp add: enc1 u)
qed

lemma dec_enc2:
  assumes "0x7F < cp" "cp \<le> 0x7FF"
  shows "utf8_decode utf8_init (utf8_encode_cp cp @ bs) = cp # utf8_decode utf8_init bs"
proof -
  let ?b1 = "byte_of (cp div 64 + 0xC0)" and ?b2 = "byte_of (0x80 + cp mod 64)"
  have q: "cp div 64 < 32" "2 \<le> cp div 64" using assms by (simp_all add: lo2)
  have u1: "unat ?b1 = cp div 64 + 0xC0" using q by (intro unat_byte) simp
  have u2: "unat ?b2 = 0x80 + cp mod 64" by (intro unat_byte) simp
  have r: "0xC2 \<le> unat ?b1" "unat ?b1 \<le> 0xDF" "0x80 \<le> unat ?b2" "unat ?b2 \<le> 0xBF"
    unfolding u1 u2 using q by simp_all
  have "unat ?b1 mod 32 * 64 + unat ?b2 mod 64 = cp div 64 * 64 + cp mod 64"
    unfolding u1 u2 by (simp only: lead_mod1[OF q(1)] cont_mod)
  then have v: "unat ?b1 mod 32 * 64 + unat ?b2 mod 64 = cp" by (simp only: join2)
  have "utf8_encode_cp cp @ bs = ?b1 # ?b2 # bs" using assms by (simp add: enc2)
  then show ?thesis by (simp only: dec2[OF r] v)
qed

lemma dec_enc3:
  assumes "0x7FF < cp" "cp \<le> 0xFFFF" "\<not> (0xD800 \<le> cp \<and> cp \<le> 0xDFFF)"
  shows "utf8_decode utf8_init (utf8_encode_cp cp @ bs) = cp # utf8_decode utf8_init bs"
proof -
  let ?b1 = "byte_of (cp div 4096 + 0xE0)" and ?b2 = "byte_of (0x80 + cp div 64 mod 64)"
    and ?b3 = "byte_of (0x80 + cp mod 64)"
  have q: "cp div 4096 < 16" using assms(2) by simp
  have u1: "unat ?b1 = cp div 4096 + 0xE0" using q by (intro unat_byte) simp
  have u2: "unat ?b2 = 0x80 + cp div 64 mod 64" by (intro unat_byte) simp
  have u3: "unat ?b3 = 0x80 + cp mod 64" by (intro unat_byte) simp
  have lo: "cp div 4096 = 0 \<Longrightarrow> 32 \<le> cp div 64 mod 64" using assms(1) by (rule lo3)
  have hi: "cp div 4096 = 13 \<Longrightarrow> cp div 64 mod 64 \<le> 31"
  proof -
    assume h: "cp div 4096 = 13"
    then have "cp < 0xE000" by (rule below_E000)
    then have "cp < 0xD800" using assms(3) by simp
    then show ?thesis using h by (rule hi3)
  qed
  have r1: "0xE0 \<le> unat ?b1" unfolding u1 by simp
  have r2: "unat ?b1 \<le> 0xEF" unfolding u1 using q by simp
  have r3: "(if unat ?b1 = 0xE0 then 0xA0 else 0x80) \<le> unat ?b2"
    unfolding u1 u2 using lo by (rule second_lo3)
  have r4: "unat ?b2 \<le> (if unat ?b1 = 0xED then 0x9F else 0xBF)"
    unfolding u1 u2 using hi mod63 by (rule second_hi3)
  have r5: "0x80 \<le> unat ?b3" and r6: "unat ?b3 \<le> 0xBF"
    unfolding u3 using cont_range[OF mod63, of cp] by simp_all
  have "(unat ?b1 mod 16 * 64 + unat ?b2 mod 64) * 64 + unat ?b3 mod 64
      = (cp div 4096 * 64 + cp div 64 mod 64) * 64 + cp mod 64"
    unfolding u1 u2 u3 by (simp only: lead_mod2[OF q] cont_mod)
  then have v: "(unat ?b1 mod 16 * 64 + unat ?b2 mod 64) * 64 + unat ?b3 mod 64 = cp"
    by (simp only: join3)
  have "utf8_encode_cp cp @ bs = ?b1 # ?b2 # ?b3 # bs" using assms by (simp add: enc3)
  then show ?thesis by (simp only: dec3[OF r1 r2 r3 r4 r5 r6] v)
qed

lemma dec_enc4:
  assumes "0xFFFF < cp" "cp \<le> 0x10FFFF"
  shows "utf8_decode utf8_init (utf8_encode_cp cp @ bs) = cp # utf8_decode utf8_init bs"
proof -
  let ?b1 = "byte_of (cp div 262144 + 0xF0)" and ?b2 = "byte_of (0x80 + cp div 4096 mod 64)"
    and ?b3 = "byte_of (0x80 + cp div 64 mod 64)"
    and ?b4 = "byte_of (0x80 + cp mod 64)"
  have q: "cp div 262144 < 8" using assms(2) by simp
  have q4: "cp div 262144 \<le> 4" using assms(2) by (rule top4)
  have u1: "unat ?b1 = cp div 262144 + 0xF0" using q by (intro unat_byte) simp
  have u2: "unat ?b2 = 0x80 + cp div 4096 mod 64" by (intro unat_byte) simp
  have u3: "unat ?b3 = 0x80 + cp div 64 mod 64" by (intro unat_byte) simp
  have u4: "unat ?b4 = 0x80 + cp mod 64" by (intro unat_byte) simp
  have lo: "cp div 262144 = 0 \<Longrightarrow> 16 \<le> cp div 4096 mod 64" using assms(1) by (rule lo4)
  have hi: "cp div 262144 = 4 \<Longrightarrow> cp div 4096 mod 64 \<le> 15" using assms(2) by (rule hi4)
  have r1: "0xF0 \<le> unat ?b1" unfolding u1 by simp
  have r2: "unat ?b1 \<le> 0xF4" unfolding u1 using q4 by simp
  have r3: "(if unat ?b1 = 0xF0 then 0x90 else 0x80) \<le> unat ?b2"
    unfolding u1 u2 using lo by (rule second_lo4)
  have r4: "unat ?b2 \<le> (if unat ?b1 = 0xF4 then 0x8F else 0xBF)"
    unfolding u1 u2 using hi mod63 by (rule second_hi4)
  have r5: "0x80 \<le> unat ?b3" and r6: "unat ?b3 \<le> 0xBF"
    unfolding u3 using cont_range[OF mod63, of "cp div 64"] by simp_all
  have r7: "0x80 \<le> unat ?b4" and r8: "unat ?b4 \<le> 0xBF"
    unfolding u4 using cont_range[OF mod63, of cp] by simp_all
  have "((unat ?b1 mod 8 * 64 + unat ?b2 mod 64) * 64 + unat ?b3 mod 64) * 64 + unat ?b4 mod 64
      = ((cp div 262144 * 64 + cp div 4096 mod 64) * 64 + cp div 64 mod 64) * 64 + cp mod 64"
    unfolding u1 u2 u3 u4 by (simp only: lead_mod3[OF q] cont_mod)
  then have v: "((unat ?b1 mod 8 * 64 + unat ?b2 mod 64) * 64 + unat ?b3 mod 64) * 64 + unat ?b4 mod 64 = cp"
    by (simp only: join4)
  have "utf8_encode_cp cp @ bs = ?b1 # ?b2 # ?b3 # ?b4 # bs" using assms by (simp add: enc4)
  then show ?thesis by (simp only: dec4[OF r1 r2 r3 r4 r5 r6 r7 r8] v)
qed

lemma dec_enc:
  assumes "is_scalar_value cp"
  shows "utf8_decode utf8_init (utf8_encode_cp cp @ bs) = cp # utf8_decode utf8_init bs"
proof -
  consider "cp \<le> 0x7F" | "0x7F < cp" "cp \<le> 0x7FF" | "0x7FF < cp" "cp \<le> 0xFFFF" | "0xFFFF < cp"
    by linarith
  then show ?thesis
  proof cases
    case 1 then show ?thesis by (rule dec_enc1)
  next
    case 2 then show ?thesis by (rule dec_enc2)
  next
    case 3 then show ?thesis using assms dec_enc3 by (simp add: is_scalar_value_def)
  next
    case 4 then show ?thesis using assms dec_enc4 by (simp add: is_scalar_value_def)
  qed
qed

lemma dec_enc_list:
  "\<forall>cp \<in> set cps. is_scalar_value cp \<Longrightarrow>
   utf8_decode utf8_init (concat (map utf8_encode_cp cps)) = cps"
proof (induction cps)
  case Nil
  show ?case by (simp add: utf8_decode.simps(1) utf8_init_def)
next
  case (Cons cp cps)
  then show ?case by (simp add: dec_enc)
qed

subsection \<open>Code units and scalar values\<close>

text \<open>
  A well-formed string is read as scalar values only, and writing these values as code
  units gives the string back.
\<close>

lemma pair_value_arith: "pair_value c d = 65536 + 1024 * (unat c mod 1024) + unat d mod 1024"
  by (simp add: pair_value_def and_low)

lemma pair_value_scalar: "is_scalar_value (pair_value c d)" "0xFFFF < pair_value c d"
proof -
  have "pair_value c d \<le> 0x10FFFF"
    unfolding pair_value_arith by (rule pair_bound) simp_all
  moreover show "0xFFFF < pair_value c d" unfolding pair_value_arith by simp
  ultimately show "is_scalar_value (pair_value c d)" by (simp add: is_scalar_value_def)
qed

lemma pair_value_units:
  assumes "is_lead c" "is_trail d"
  shows "code_units_of (pair_value c d) = [c, d]"
proof -
  let ?a = "unat c mod 1024" and ?b = "unat d mod 1024"
  have m: "pair_value c d - 0x10000 = 1024 * ?a + ?b" unfolding pair_value_arith by simp
  have b: "?b < 1024" by simp
  have hi: "drop_bit 10 (pair_value c d - 0x10000) = ?a"
    unfolding m drop_bit_eq_div using pair_split(1)[OF b, of ?a] by simp
  have lo: "(pair_value c d - 0x10000) AND 0x3FF = ?b"
    unfolding m and_low using pair_split(2)[OF b, of ?a] by simp
  have c: "?a + 0xD800 = unat c" using assms(1) unfolding is_lead_def by (intro lead_low10(1)) simp_all
  have d: "?b + 0xDC00 = unat d" using assms(2) unfolding is_trail_def by (intro trail_low10) simp_all
  have "code_units_of (pair_value c d) =
        [of_nat (drop_bit 10 (pair_value c d - 0x10000) + 0xD800),
         of_nat (((pair_value c d - 0x10000) AND 0x3FF) + 0xDC00)]"
    using pair_value_scalar(2)[of c d] unfolding code_units_of_def by (simp del: of_nat_add)
  then show ?thesis unfolding hi lo c d by simp
qed

lemma single_value:
  assumes "\<not> is_lead c" "\<not> is_trail c"
  shows "is_scalar_value (unat c)" "code_units_of (unat c) = [c]"
proof -
  have "unat c < 2 ^ 16" using unsigned_less[of c, where ?'a = nat] by simp
  then have le: "unat c \<le> 0xFFFF" by simp
  then show "code_units_of (unat c) = [c]" by (simp add: code_units_of_def)
  show "is_scalar_value (unat c)"
    using assms le unfolding is_scalar_value_def is_lead_def is_trail_def by auto
qed

lemma to_scalar_values_pair:
  "is_lead c \<Longrightarrow> is_trail d \<Longrightarrow> to_scalar_values (c # d # s) = pair_value c d # to_scalar_values s"
  by (auto simp: pair_value_def is_lead_def is_trail_def)

lemma to_scalar_values_single:
  "\<not> is_lead c \<Longrightarrow> \<not> is_trail c \<Longrightarrow> to_scalar_values (c # s) = unat c # to_scalar_values s"
  by (cases s) simp_all

lemma well_formed_values:
  "isWellFormed s \<Longrightarrow>
     (\<forall>cp \<in> set (to_scalar_values s). is_scalar_value cp) \<and>
     concat (map code_units_of (to_scalar_values s)) = s"
proof (induction s rule: isWellFormed.induct)
  case 1
  show ?case by simp
next
  case (2 c)
  then show ?case by (simp add: single_value)
next
  case (3 c d s)
  show ?case
  proof (cases "is_lead c")
    case True
    with "3.prems" have d: "is_trail d" and s: "isWellFormed s" by simp_all
    from "3.IH"(1)[OF True s] show ?thesis
      by (simp add: to_scalar_values_pair[OF True d] pair_value_scalar pair_value_units[OF True d]
               del: to_scalar_values.simps)
  next
    case False
    with "3.prems" have c: "\<not> is_trail c" and s: "isWellFormed (d # s)" by simp_all
    from "3.IH"(2)[OF False s] show ?thesis
      by (simp add: to_scalar_values_single[OF False c] single_value[OF False c]
               del: to_scalar_values.simps)
  qed
qed

lemma drop_bom_values:
  assumes "isWellFormed s"
  shows "drop_bom (to_scalar_values s) =
         to_scalar_values (case s of [] \<Rightarrow> [] | c # t \<Rightarrow> if c = 0xFEFF then t else s)"
proof (cases s)
  case Nil
  then show ?thesis by simp
next
  case (Cons c t)
  show ?thesis
  proof (cases "is_lead c")
    case True
    then have ne: "c \<noteq> 0xFEFF" by (auto simp: is_lead_def)
    from True assms Cons obtain d u where t: "t = d # u" and d: "is_trail d"
      by (cases t) auto
    have "pair_value c d \<noteq> 0xFEFF" using pair_value_scalar(2)[of c d] by simp
    then show ?thesis using Cons ne t
      by (simp add: to_scalar_values_pair[OF True d] del: to_scalar_values.simps)
  next
    case False
    with assms Cons have c: "\<not> is_trail c" by (cases t) simp_all
    have "(unat c = 0xFEFF) = (c = 0xFEFF)"
      using word_unat_eq_iff[of c "0xFEFF"] by simp
    then show ?thesis using Cons
      by (simp add: to_scalar_values_single[OF False c] del: to_scalar_values.simps)
  qed
qed

subsection \<open>Decoding what was encoded\<close>

text \<open>
  For a well-formed string the decoder returns the string that was encoded, less a leading
  U+FEFF. Strings written with \<open>ascii\<close> are well-formed and begin with no U+FEFF.
\<close>

lemma well_formed_strip: "isWellFormed s \<Longrightarrow> isWellFormed (strip_bom s)"
proof (cases s)
  case Nil
  then show ?thesis by (simp add: strip_bom_def)
next
  case (Cons c t)
  assume wf: "isWellFormed s"
  show ?thesis
  proof (cases "c = 0xFEFF")
    case True
    then have "\<not> is_lead c" by (simp add: is_lead_def)
    with wf Cons have "isWellFormed t" by (cases t) simp_all
    with True Cons show ?thesis by (simp add: strip_bom_def)
  next
    case False
    with wf Cons show ?thesis by (simp add: strip_bom_def)
  qed
qed

lemma decode_encode_strip:
  assumes "isWellFormed s"
  shows "decode (encode s) = strip_bom s"
proof -
  have "utf8_decode utf8_init (encode s) = to_scalar_values s"
    unfolding encode_def using well_formed_values[OF assms] by (intro dec_enc_list) simp
  then have "decode (encode s) = concat (map code_units_of (drop_bom (to_scalar_values s)))"
    by (simp add: decode_def)
  also have "\<dots> = concat (map code_units_of (to_scalar_values (strip_bom s)))"
    using drop_bom_values[OF assms] by (simp add: strip_bom_def)
  also have "\<dots> = strip_bom s"
    using well_formed_values[OF well_formed_strip[OF assms]] by simp
  finally show ?thesis .
qed

lemma decode_encode_id:
  "isWellFormed s \<Longrightarrow> \<not> starts_with_bom s \<Longrightarrow> decode (encode s) = s"
  by (simp add: decode_encode_strip strip_bom_def starts_with_bom_def split: list.splits)

lemma of_char_less: "(of_char c :: nat) < 256"
  using of_char_mod_256[of c, where ?'a = nat] mod_less_divisor[of 256 "of_char c :: nat"]
  by (simp del: of_char_mod_256)

lemma unat_ascii_unit: "unat (of_nat (of_char c) :: 16 word) = of_char c"
proof -
  have "(of_char c :: nat) < 65536" using of_char_less[of c] by linarith
  then have "(of_char c :: nat) mod 65536 = of_char c" by (rule mod_less)
  then show ?thesis unfolding unat_of_nat by simp
qed

lemma ascii_unit: "c \<in> set (ascii s) \<Longrightarrow> unat c < 256"
  using of_char_less by (auto simp: ascii_def unat_ascii_unit)

lemma no_surrogates_well_formed:
  "\<forall>c \<in> set s. \<not> is_lead c \<and> \<not> is_trail c \<Longrightarrow> isWellFormed s"
  by (induction s rule: isWellFormed.induct) simp_all

lemma ascii_well_formed: "isWellFormed (ascii s)"
proof (rule no_surrogates_well_formed, rule ballI)
  fix c assume "c \<in> set (ascii s)"
  then have "unat c < 256" by (rule ascii_unit)
  then show "\<not> is_lead c \<and> \<not> is_trail c" by (simp add: is_lead_def is_trail_def)
qed

lemma ascii_no_bom: "\<not> starts_with_bom (ascii s)"
proof (cases s)
  case Nil
  then show ?thesis by (simp add: starts_with_bom_def ascii_def)
next
  case (Cons c t)
  have "(of_char c :: nat) \<noteq> 0xFEFF" using of_char_less[of c] by linarith
  then have "unat (of_nat (of_char c) :: 16 word) \<noteq> unat (0xFEFF :: 16 word)"
    unfolding unat_ascii_unit by simp
  then have "(of_nat (of_char c) :: 16 word) \<noteq> 0xFEFF" by auto
  with Cons show ?thesis by (simp add: starts_with_bom_def ascii_def)
qed

lemma decode_encode_ascii: "decode (encode (ascii s)) = ascii s"
  by (rule decode_encode_id[OF ascii_well_formed ascii_no_bom])

lemma ascii_eq_iff: "ascii s = ascii t \<longleftrightarrow> s = t"
proof -
  have "inj (\<lambda>c. of_nat (of_char c) :: 16 word)"
  proof (rule injI)
    fix c d :: char
    assume "(of_nat (of_char c) :: 16 word) = of_nat (of_char d)"
    then have "unat (of_nat (of_char c) :: 16 word) = unat (of_nat (of_char d) :: 16 word)" by simp
    then have "(of_char c :: nat) = of_char d" by (simp only: unat_ascii_unit)
    then show "c = d" by simp
  qed
  then show ?thesis unfolding ascii_def by (simp add: inj_map_eq_map)
qed

lemma decode_empty: "decode [] = []"
  by (simp add: decode_def utf8_decode.simps utf8_init_def)

section \<open>Lemmas on the converter\<close>

text \<open>
  The two functions of the converter, unfolded for the cases the theorems need: whether a
  manifest is attached, and whether one is found.
\<close>

lemma keys_distinct_sample: "ascii ''encoding'' \<noteq> SUPERJSON_META_KEY"
  by (simp add: SUPERJSON_META_KEY_def ascii_eq_iff)

lemma encode_empty: "encode [] = []"
  by (simp add: encode_def)

lemma encode_arg_simps: "encode_arg (Some s) = encode s" "encode_arg None = []"
  by (simp_all add: encode_arg_def encode_empty)

lemma add_meta_None: "add_meta D md None = Inr md"
  by (simp add: add_meta_def)

lemma add_meta_Some:
  "json_stringify D m = Inr tm \<Longrightarrow>
   add_meta D md (Some m) = Inr (md(SUPERJSON_META_KEY \<mapsto> encode_arg tm))"
  by (simp add: add_meta_def)

lemma toPayload_Some:
  assumes "serialize D v = Inr (json, meta)"
    and "add_meta D [METADATA_ENCODING_KEY D \<mapsto> encode ENCODING] meta = Inr md"
    and "json_stringify D json = Inr tj"
  shows "toPayload D (Some v) = Inr (Some \<lparr>metadata = Some md, data = Some (encode_arg tj)\<rparr>)"
  using assms by (simp add: toPayload_def)


lemma fromPayload_plain:
  assumes "data p = Some d" "meta_raw p = None"
  shows "fromPayload D p = (case json_parse D (decode d) of Inl x \<Rightarrow> Inl (Raised x) | Inr j \<Rightarrow> Inr j)"
  using assms by (simp add: fromPayload_def split: sum.splits)

lemma fromPayload_restored:
  assumes "data p = Some d" "meta_raw p = Some mr"
    and "json_parse D (decode d) = Inr json" "json_parse D (decode mr) = Inr m"
  shows "fromPayload D p = (case deserialize D (json, Some m) of Inl x \<Rightarrow> Inl (Raised x) | Inr v \<Rightarrow> Inr v)"
  using assms by (simp add: fromPayload_def split: sum.splits)

text \<open>The dispatcher's loop stops at the first converter that returns a payload.\<close>

lemma first_accepting_wins:
  assumes "\<forall>c' \<in> set pre. run c' = Inr None" and "run c = Inr (Some p)"
  shows "first_accepting run (pre @ c # post) = (pre @ [c], Inr (Some p))"
  using assms by (induction pre) simp_all

subsection \<open>Facts about the sample environment\<close>

lemma sample_key: "METADATA_ENCODING_KEY sample_deps \<noteq> SUPERJSON_META_KEY"
  by (simp add: sample_deps_def keys_distinct_sample)

lemma sample_texts_well_formed:
  "isWellFormed nested_json_text" "isWellFormed nested_meta_text"
  "isWellFormed legacy_text" "isWellFormed array_text"
  unfolding nested_json_text_def nested_meta_text_def legacy_text_def array_text_def
  by (rule ascii_well_formed)+

lemma sample_texts_no_bom:
  "\<not> starts_with_bom nested_json_text" "\<not> starts_with_bom nested_meta_text"
  "\<not> starts_with_bom legacy_text" "\<not> starts_with_bom array_text"
  unfolding nested_json_text_def nested_meta_text_def legacy_text_def array_text_def
  by (rule ascii_no_bom)+

lemma sample_texts_decode:
  "decode (encode nested_json_text) = nested_json_text"
  "decode (encode nested_meta_text) = nested_meta_text"
  "decode (encode legacy_text) = legacy_text"
  "decode (encode array_text) = array_text"
  unfolding nested_json_text_def nested_meta_text_def legacy_text_def array_text_def
  by (rule decode_encode_ascii)+

lemma sample_serialize_nested:
  "serialize sample_deps nested_value = Inr (nested_json, Some nested_meta)"
  by (simp add: sample_deps_def sample_serialize_def)


lemma sample_deserialize_nested:
  "deserialize sample_deps (nested_json, Some nested_meta) = Inr nested_value"
  by (simp add: sample_deps_def sample_deserialize_def)

lemma sample_deserialize_plain: "deserialize sample_deps (j, None) = Inr j"
  by (simp add: sample_deps_def sample_deserialize_def)

lemma sample_stringify_nested:
  "json_stringify sample_deps nested_json = Inr (Some nested_json_text)"
  "json_stringify sample_deps nested_meta = Inr (Some nested_meta_text)"
  by (simp_all add: sample_deps_def sample_stringify_def nested_json_def nested_meta_def)


lemma sample_parse_nested:
  "json_parse sample_deps nested_json_text = Inr nested_json"
  "json_parse sample_deps nested_meta_text = Inr nested_meta"
  by (simp_all add: sample_deps_def sample_parse_def nested_json_text_def nested_meta_text_def
        ascii_eq_iff)

lemma sample_parse_plain:
  "json_parse sample_deps legacy_text = Inr legacy_json"
  "json_parse sample_deps array_text = Inr array_json"
  \<open>json_parse sample_deps (ascii ''"hello"'') = Inr (JString ''hello'')\<close>
  "json_parse sample_deps (ascii ''42'') = Inr (JNumber 42)"
  "json_parse sample_deps (ascii ''true'') = Inr (JBool True)"
  "json_parse sample_deps (ascii ''null'') = Inr JNull"
  by (simp_all add: sample_deps_def sample_parse_def nested_json_text_def nested_meta_text_def
        legacy_text_def array_text_def ascii_eq_iff)

lemma sample_parse_empty: "json_parse sample_deps [] = Inl SyntaxError"
  by (simp add: sample_deps_def sample_parse_def nested_json_text_def nested_meta_text_def
        legacy_text_def array_text_def ascii_def)



section \<open>The claims\<close>

text \<open>
  C1. Decoding what the converter encoded gives the value back: for a value \<open>v\<close> whose
  serialization is \<open>(json, meta)\<close> and is inverted by \<open>deserialize\<close>, \<open>toPayload\<close>
  returns a payload and \<open>fromPayload\<close> of that payload returns \<open>v\<close>. The environment is
  assumed to behave as the platform and the dependency do: \<open>JSON.parse\<close> inverts
  \<open>JSON.stringify\<close> on \<open>json\<close> and on \<open>meta\<close>, the JSON texts are well-formed strings
  that do not begin with U+FEFF, \<open>deserialize\<close> without a manifest returns the tree it
  is given, and the encoding key of the library is not \<open>superjson-meta\<close>.
\<close>

theorem roundtrip_fromPayload_toPayload:
  assumes key: "METADATA_ENCODING_KEY D \<noteq> SUPERJSON_META_KEY"
    and ser: "serialize D v = Inr (json, meta)"
    and inv: "deserialize D (json, meta) = Inr v"
    and plain: "deserialize D (json, None) = Inr json"
    and js: "json_stringify D json = Inr (Some tj)" "isWellFormed tj" "\<not> starts_with_bom tj"
            "json_parse D tj = Inr json"
    and ms: "\<forall>m. meta = Some m \<longrightarrow>
               (\<exists>tm. json_stringify D m = Inr (Some tm) \<and> isWellFormed tm \<and>
                     \<not> starts_with_bom tm \<and> json_parse D tm = Inr m)"
  shows "\<exists>p. toPayload D (Some v) = Inr (Some p) \<and> fromPayload D p = Inr v"
proof (cases meta)
  case None
  let ?p = "\<lparr>metadata = Some [METADATA_ENCODING_KEY D \<mapsto> encode ENCODING],
             data = Some (encode tj)\<rparr>"
  have to: "toPayload D (Some v) = Inr (Some ?p)"
    using toPayload_Some[OF ser[unfolded None] add_meta_None js(1)]
    by (simp only: encode_arg_simps)
  have mr: "meta_raw ?p = None" using key by (simp add: meta_raw_def)
  have d: "data ?p = Some (encode tj)" by simp
  have pj: "json_parse D (decode (encode tj)) = Inr json"
    using js by (simp add: decode_encode_id)
  have "fromPayload D ?p = Inr json"
    using fromPayload_plain[OF d mr, of D] pj by simp
  moreover have "json = v" using inv plain None by simp
  ultimately show ?thesis using to by blast
next
  case (Some m)
  with ms obtain tm where tm: "json_stringify D m = Inr (Some tm)" "isWellFormed tm"
      "\<not> starts_with_bom tm" "json_parse D tm = Inr m" by blast
  let ?md = "[METADATA_ENCODING_KEY D \<mapsto> encode ENCODING, SUPERJSON_META_KEY \<mapsto> encode tm]"
  let ?p = "\<lparr>metadata = Some ?md, data = Some (encode tj)\<rparr>"
  have to: "toPayload D (Some v) = Inr (Some ?p)"
    using toPayload_Some[OF ser[unfolded Some] add_meta_Some[OF tm(1)] js(1)]
    by (simp only: encode_arg_simps)
  have mr: "meta_raw ?p = Some (encode tm)" by (simp add: meta_raw_def)
  have d: "data ?p = Some (encode tj)" by simp
  have pj: "json_parse D (decode (encode tj)) = Inr json"
    using js by (simp add: decode_encode_id)
  have pm: "json_parse D (decode (encode tm)) = Inr m"
    using tm by (simp add: decode_encode_id)
  have "fromPayload D ?p = Inr v"
    using fromPayload_restored[OF d mr pj pm] inv Some by simp
  then show ?thesis using to by blast
qed

theorem roundtrip_fromPayload_toPayload_witness:
  "\<exists>p. toPayload sample_deps (Some nested_value) = Inr (Some p) \<and>
       fromPayload sample_deps p = Inr nested_value"
proof -
  have ms: "\<forall>m. Some nested_meta = Some m \<longrightarrow>
      (\<exists>tm. json_stringify sample_deps m = Inr (Some tm) \<and> isWellFormed tm \<and>
            \<not> starts_with_bom tm \<and> json_parse sample_deps tm = Inr m)"
    using sample_stringify_nested(2) sample_texts_well_formed(2) sample_texts_no_bom(2)
      sample_parse_nested(2) by auto
  show ?thesis
    using roundtrip_fromPayload_toPayload[OF sample_key sample_serialize_nested
        sample_deserialize_nested sample_deserialize_plain sample_stringify_nested(1)
        sample_texts_well_formed(1) sample_texts_no_bom(1) sample_parse_nested(1) ms] .
qed









text \<open>
  C5. \<open>toPayload\<close> of \<open>undefined\<close> returns no payload. For every other input, \<open>null\<close>
  among them, it does not decline: it returns a payload or passes on an exception.
\<close>

theorem toPayload_declines_only_undefined:
  "toPayload D None = Inr None \<and> (\<forall>v. toPayload D (Some v) \<noteq> Inr None)"
  by (simp add: toPayload_def split: sum.splits prod.splits)

theorem toPayload_declines_only_undefined_witness:
  "toPayload sample_deps None = Inr None \<and>
   toPayload sample_deps (Some JNull) \<noteq> Inr None \<and>
   toPayload sample_deps (Some JNull) =
     Inr (Some \<lparr>metadata = Some [ascii ''encoding'' \<mapsto> encode (ascii ''json/plain'')],
                data = Some (encode (ascii ''null''))\<rparr>)"
proof -
  have "toPayload sample_deps (Some JNull) =
     Inr (Some \<lparr>metadata = Some [ascii ''encoding'' \<mapsto> encode (ascii ''json/plain'')],
                data = Some (encode (ascii ''null''))\<rparr>)"
    by (simp add: toPayload_def add_meta_def sample_deps_def sample_serialize_def
          sample_stringify_def nested_value_def nested_json_def nested_meta_def legacy_json_def
          array_json_def ENCODING_def encode_arg_simps)
  then show ?thesis using toPayload_declines_only_undefined[of sample_deps] by simp
qed

text \<open>
  C6. For a payload with a body and no \<open>superjson-meta\<close> entry in its metadata,
  \<open>fromPayload\<close> returns what \<open>JSON.parse\<close> returns on the decoded body, with no type
  restoration, whatever the body is: an object, an array or a primitive.
\<close>

theorem fromPayload_without_manifest:
  assumes "data p = Some d"
    and "\<forall>md. metadata p = Some md \<longrightarrow> md SUPERJSON_META_KEY = None"
  shows "fromPayload D p =
           (case json_parse D (decode d) of Inl x \<Rightarrow> Inl (Raised x) | Inr json \<Rightarrow> Inr json)"
proof -
  have "meta_raw p = None" using assms(2) by (simp add: meta_raw_def split: option.splits)
  with assms(1) show ?thesis by (rule fromPayload_plain)
qed

theorem fromPayload_without_manifest_witness:
  \<open>fromPayload sample_deps (plain_payload legacy_text) = Inr legacy_json \<and>
   fromPayload sample_deps (plain_payload array_text) = Inr array_json \<and>
   fromPayload sample_deps (plain_payload (ascii ''"hello"'')) = Inr (JString ''hello'') \<and>
   fromPayload sample_deps (plain_payload (ascii ''42'')) = Inr (JNumber 42) \<and>
   fromPayload sample_deps (plain_payload (ascii ''true'')) = Inr (JBool True) \<and>
   fromPayload sample_deps (plain_payload (ascii ''null'')) = Inr JNull\<close>
proof -
  have d: "data (plain_payload t) = Some (encode t)" for t
    by (simp add: plain_payload_def)
  have m: "\<forall>md. metadata (plain_payload t) = Some md \<longrightarrow> md SUPERJSON_META_KEY = None" for t
    using keys_distinct_sample by (simp add: plain_payload_def)
  show ?thesis
    using fromPayload_without_manifest[OF d m, of sample_deps]
    by (simp add: sample_texts_decode decode_encode_ascii sample_parse_plain)
qed

text \<open>
  C7. For a well-formed string \<open>s\<close>, \<open>decode (encode s)\<close> is \<open>s\<close> when \<open>s\<close> does not begin
  with U+FEFF; when it does, the decoder takes that first code unit for a byte order mark
  and drops it, and the result is the rest of \<open>s\<close>. \<open>encode\<close> is a total function.
\<close>

theorem decode_encode_well_formed:
  assumes "isWellFormed s"
  shows "decode (encode s) = (if starts_with_bom s then tl s else s)"
  using decode_encode_strip[OF assms]
  by (simp add: strip_bom_def starts_with_bom_def split: list.splits)

theorem decode_encode_well_formed_witness:
  "decode (encode (ascii ''json/plain'')) = ascii ''json/plain'' \<and>
   decode (encode [0xFEFF, 0x6A]) = [0x6A]"
proof
  show "decode (encode (ascii ''json/plain'')) = ascii ''json/plain''"
    using decode_encode_well_formed[OF ascii_well_formed, of "''json/plain''"]
    by (simp add: ascii_no_bom)
  have wf: "isWellFormed [0xFEFF, 0x6A]" by (simp add: is_lead_def is_trail_def)
  show "decode (encode [0xFEFF, 0x6A]) = [0x6A]"
    using decode_encode_well_formed[OF wf] by (simp add: starts_with_bom_def)
qed

text \<open>
  C7, as first stated, asks for \<open>decode (encode s) = s\<close> on every well-formed string.
  The two code units U+FEFF, U+0061 are a well-formed string that does not come back.
\<close>

theorem decode_encode_bom_counterexample:
  "isWellFormed [0xFEFF, 0x61] \<and>
   decode (encode [0xFEFF, 0x61]) = [0x61] \<and>
   decode (encode [0xFEFF, 0x61]) \<noteq> [0xFEFF, 0x61]"
proof -
  have wf: "isWellFormed [0xFEFF, 0x61]" by (simp add: is_lead_def is_trail_def)
  have "decode (encode [0xFEFF, 0x61]) = [0x61]"
    using decode_encode_strip[OF wf] by (simp add: strip_bom_def)
  with wf show ?thesis by simp
qed

text \<open>
  C8. The composite converter holds three converters: the handler of \<open>undefined\<close>, the
  handler of binary buffers and the SuperJSON converter, in this order. On encode the first
  converter in that order that returns a payload gives the result: a value the first or
  the second converter accepts never reaches \<open>toPayload\<close> of the SuperJSON converter, and
  a value both decline is encoded by it.
\<close>

theorem payloadConverter_first_accepting:
  "payloadConverter =
     [UndefinedPayloadConverter, BinaryPayloadConverter, SuperJsonPayloadConverter] \<and>
   (\<forall>p. U value = Some p \<longrightarrow>
      payloadConverter_toPayload D U B value = ([UndefinedPayloadConverter], Inr (Some p))) \<and>
   (\<forall>p. U value = None \<and> B value = Some p \<longrightarrow>
      payloadConverter_toPayload D U B value =
        ([UndefinedPayloadConverter, BinaryPayloadConverter], Inr (Some p))) \<and>
   (U value = None \<and> B value = None \<longrightarrow>
      payloadConverter_toPayload D U B value =
        ([UndefinedPayloadConverter, BinaryPayloadConverter, SuperJsonPayloadConverter],
         toPayload D value))"
  by (auto simp: payloadConverter_def payloadConverter_toPayload_def converter_toPayload_def
        split: sum.splits option.splits)

theorem payloadConverter_first_accepting_witness:
  "payloadConverter_toPayload sample_deps sample_undefined_toPayload sample_binary_toPayload
      None =
     ([UndefinedPayloadConverter],
      Inr (Some \<lparr>metadata = Some [ascii ''encoding'' \<mapsto> encode (ascii ''binary/null'')],
                 data = None\<rparr>)) \<and>
   payloadConverter_toPayload sample_deps sample_undefined_toPayload sample_binary_toPayload
      (Some (JBytes [1, 2, 3, 4, 5])) =
     ([UndefinedPayloadConverter, BinaryPayloadConverter],
      Inr (Some \<lparr>metadata = Some [ascii ''encoding'' \<mapsto> encode (ascii ''binary/plain'')],
                 data = Some [1, 2, 3, 4, 5]\<rparr>)) \<and>
   payloadConverter_toPayload sample_deps sample_undefined_toPayload sample_binary_toPayload
      (Some nested_value) =
     ([UndefinedPayloadConverter, BinaryPayloadConverter, SuperJsonPayloadConverter],
      toPayload sample_deps (Some nested_value))"
  using payloadConverter_first_accepting[of sample_undefined_toPayload None sample_deps
      sample_binary_toPayload]
    payloadConverter_first_accepting[of sample_undefined_toPayload "Some (JBytes [1, 2, 3, 4, 5])"
      sample_deps sample_binary_toPayload]
    payloadConverter_first_accepting[of sample_undefined_toPayload "Some nested_value"
      sample_deps sample_binary_toPayload]
  by (simp add: sample_undefined_toPayload_def sample_binary_toPayload_def nested_value_def)

text \<open>
  C9. \<open>fromPayload\<close> does not read the encoding entry of the metadata: replacing the
  entry by any bytes, or removing it, leaves the result unchanged, and a payload with no
  metadata at all decodes by the plain path to what \<open>JSON.parse\<close> returns on its body.
\<close>

theorem fromPayload_ignores_encoding_entry:
  assumes key: "METADATA_ENCODING_KEY D \<noteq> SUPERJSON_META_KEY"
  shows "(\<forall>md b. metadata p = Some md \<longrightarrow>
            fromPayload D (p\<lparr>metadata := Some (md(METADATA_ENCODING_KEY D \<mapsto> b))\<rparr>) =
              fromPayload D p \<and>
            fromPayload D (p\<lparr>metadata := Some (md(METADATA_ENCODING_KEY D := None))\<rparr>) =
              fromPayload D p) \<and>
         (\<forall>d json. metadata p = None \<and> data p = Some d \<and> json_parse D (decode d) = Inr json \<longrightarrow>
            fromPayload D p = Inr json)"
proof -
  have upd: "meta_raw (p\<lparr>metadata := Some (md(METADATA_ENCODING_KEY D := e))\<rparr>) = meta_raw p"
    if "metadata p = Some md" for md e
    using that key by (simp add: meta_raw_def)
  have same: "fromPayload D q = fromPayload D p" if "meta_raw q = meta_raw p" "data q = data p" for q
    unfolding fromPayload_def that by (rule refl)
  have none: "fromPayload D p = Inr json"
    if "metadata p = None" "data p = Some d" "json_parse D (decode d) = Inr json" for d json
  proof -
    have "meta_raw p = None" using that(1) by (simp add: meta_raw_def)
    with that(2) have "fromPayload D p =
        (case json_parse D (decode d) of Inl x \<Rightarrow> Inl (Raised x) | Inr json \<Rightarrow> Inr json)"
      by (rule fromPayload_plain)
    with that(3) show ?thesis by simp
  qed
  show ?thesis
  proof (intro conjI allI impI)
    fix md b
    assume m: "metadata p = Some md"
    show "fromPayload D (p\<lparr>metadata := Some (md(METADATA_ENCODING_KEY D \<mapsto> b))\<rparr>) =
            fromPayload D p"
      by (rule same) (simp_all add: upd[OF m])
  next
    fix md
    assume m: "metadata p = Some md"
    show "fromPayload D (p\<lparr>metadata := Some (md(METADATA_ENCODING_KEY D := None))\<rparr>) =
            fromPayload D p"
      by (rule same) (simp_all add: upd[OF m])
  next
    fix d json
    assume "metadata p = None \<and> data p = Some d \<and> json_parse D (decode d) = Inr json"
    then show "fromPayload D p = Inr json" using none by blast
  qed
qed

theorem fromPayload_ignores_encoding_entry_witness:
  "fromPayload sample_deps
     \<lparr>metadata = Some [ascii ''encoding'' \<mapsto> encode (ascii ''binary/plain'')],
      data = Some (encode legacy_text)\<rparr> = Inr legacy_json \<and>
   fromPayload sample_deps \<lparr>metadata = Some Map.empty, data = Some (encode legacy_text)\<rparr> =
     Inr legacy_json \<and>
   fromPayload sample_deps \<lparr>metadata = None, data = Some (encode legacy_text)\<rparr> =
     Inr legacy_json"
proof -
  let ?md = "[ascii ''encoding'' \<mapsto> encode (ascii ''json/plain'')]"
  let ?p = "\<lparr>metadata = Some ?md, data = Some (encode legacy_text)\<rparr>"
  let ?q = "\<lparr>metadata = None, data = Some (encode legacy_text)\<rparr>"
  have k: "METADATA_ENCODING_KEY sample_deps = ascii ''encoding''"
    by (simp add: sample_deps_def)
  have l: "fromPayload sample_deps ?p = Inr legacy_json"
    using fromPayload_plain[of ?p "encode legacy_text" sample_deps] keys_distinct_sample
    by (simp add: meta_raw_def sample_texts_decode sample_parse_plain)
  have md: "metadata ?p = Some ?md" by simp
  have q: "metadata ?q = None \<and> data ?q = Some (encode legacy_text) \<and>
           json_parse sample_deps (decode (encode legacy_text)) = Inr legacy_json"
    by (simp add: sample_texts_decode sample_parse_plain)
  note P = fromPayload_ignores_encoding_entry[OF sample_key, of ?p]
  note Q = fromPayload_ignores_encoding_entry[OF sample_key, of ?q]
  from P md have
    "fromPayload sample_deps
       (?p\<lparr>metadata := Some (?md(METADATA_ENCODING_KEY sample_deps \<mapsto>
                                      encode (ascii ''binary/plain'')))\<rparr>) =
     fromPayload sample_deps ?p"
    by blast
  then have a: "fromPayload sample_deps
     \<lparr>metadata = Some [ascii ''encoding'' \<mapsto> encode (ascii ''binary/plain'')],
      data = Some (encode legacy_text)\<rparr> = Inr legacy_json"
    by (simp add: k l)
  from P md have
    "fromPayload sample_deps (?p\<lparr>metadata := Some (?md(METADATA_ENCODING_KEY sample_deps := None))\<rparr>) =
     fromPayload sample_deps ?p"
    by blast
  then have b: "fromPayload sample_deps
     \<lparr>metadata = Some Map.empty, data = Some (encode legacy_text)\<rparr> = Inr legacy_json"
    by (simp add: k l)
  from Q q have c: "fromPayload sample_deps ?q = Inr legacy_json" by blast
  from a b c show ?thesis by (intro conjI)
qed

text \<open>
  C10. A body that is present but empty is not a missing body: \<open>fromPayload\<close> does not
  throw its own error, it calls \<open>JSON.parse\<close> on the empty text, and when that call
  throws, its exception is the result.
\<close>

theorem fromPayload_empty_body:
  assumes "data p = Some []"
  shows "(\<forall>msg. fromPayload D p \<noteq> Inl (ValueError msg)) \<and>
         (\<forall>x. json_parse D [] = Inl x \<longrightarrow> fromPayload D p = Inl (Raised x))"
  using assms by (simp add: fromPayload_def decode_empty split: sum.splits option.splits)

theorem fromPayload_empty_body_witness:
  "fromPayload sample_deps \<lparr>metadata = None, data = Some []\<rparr> = Inl (Raised SyntaxError) \<and>
   fromPayload sample_deps \<lparr>metadata = None, data = Some []\<rparr> \<noteq>
     Inl (ValueError (ascii ''Payload data is missing''))"
  using fromPayload_empty_body[of "\<lparr>metadata = None, data = Some []\<rparr>" sample_deps]
  by (simp add: sample_parse_empty)

end
